theory Spec2Isabelle
  imports Complex_Main "HOL-Library.Char_ord" "HOL-Library.List_Lexorder"
begin

section \<open>Subtitle image extraction: the timestamp codec, the detector, the driver\<close>

text \<open>
  The embedding follows \<^verbatim>\<open>src/extractor.py\<close> (functions \<^verbatim>\<open>frames_to_time_str\<close> and
  \<^verbatim>\<open>main\<close>) and the file-name parser of \<^verbatim>\<open>src/ocr_processor.py\<close> (\<^verbatim>\<open>main\<close>).

  Numbers. Frame numbers are Python integers (\<open>int\<close>). The frame rate, the change
  threshold and the elapsed seconds are Python floats; they are modelled as exact
  rationals (\<open>rat\<close>), so rounding of the binary floating-point format is not part of
  the model. \<^verbatim>\<open>int(x)\<close> of Python truncates towards zero, \<^verbatim>\<open>divmod\<close> is floor division,
  which is what \<open>div\<close> and \<open>mod\<close> on \<open>int\<close> are.

  Library calls. The pixel operations of OpenCV and NumPy are parameters: the crop
  \<^verbatim>\<open>frame[y1:y2, x1:x2]\<close> and the score \<^verbatim>\<open>np.sum(cv2.absdiff(a, b))\<close>, a sum of
  absolute differences of unsigned bytes, hence a natural number. The video is a
  function from frame positions to decoded frames, \<open>None\<close> where \<^verbatim>\<open>cap.read()\<close>
  does not return a frame.
\<close>

subsection \<open>Python helpers\<close>

datatype error = OverflowError | VideoOpenFailure

definition py_int :: "rat \<Rightarrow> int" where
  \<comment> \<open>\<^verbatim>\<open>int(x)\<close> on a float: truncation towards zero.\<close>
  "py_int x = (if x < 0 then \<lceil>x\<rceil> else \<lfloor>x\<rfloor>)"

definition digit_char :: "nat \<Rightarrow> char" where
  "digit_char d = char_of (48 + d)"

fun digits10 :: "nat \<Rightarrow> string" where
  "digits10 n = (if n < 10 then [digit_char n] else digits10 (n div 10) @ [digit_char (n mod 10)])"

declare digits10.simps [simp del]

definition format_d :: "nat \<Rightarrow> int \<Rightarrow> string" where
  \<comment> \<open>The format specification \<^verbatim>\<open>0<width>d\<close>: sign first, then zeros up to the width,
      then the decimal digits; a number wider than the field is not cut.\<close>
  "format_d width n =
     (let sign = (if n < 0 then ''-'' else '''');
          ds = digits10 (nat \<bar>n\<bar>)
      in sign @ replicate (width - length sign - length ds) (CHR ''0'') @ ds)"

definition endswith :: "string \<Rightarrow> string \<Rightarrow> bool" where
  "endswith s suffix = (length suffix \<le> length s \<and> drop (length s - length suffix) s = suffix)"

subsection \<open>Timestamp codec: \<^verbatim>\<open>frames_to_time_str\<close>\<close>

record time_fields =
  hours :: int
  minutes :: int
  seconds :: int
  ms :: int

definition timedelta_seconds :: "int \<Rightarrow> error + int" where
  \<comment> \<open>\<^verbatim>\<open>int(datetime.timedelta(seconds=whole).total_seconds())\<close> for an integral
      \<^verbatim>\<open>whole\<close>: the value itself, and OverflowError when the number of days
      exceeds 999999999 in magnitude.\<close>
  "timedelta_seconds whole =
     (if \<bar>whole div 86400\<bar> > 999999999 then Inl OverflowError else Inr whole)"

definition split_time :: "int \<Rightarrow> rat \<Rightarrow> error + time_fields" where
  \<comment> \<open>Lines 105 to 111 of extractor.py.\<close>
  "split_time frame_count fps0 =
     (let fps = (if fps0 = 0 then 25 else fps0);
          secs = of_int frame_count / fps;
          whole = py_int secs;
          frac = secs - of_int whole
      in case timedelta_seconds whole of
           Inl e \<Rightarrow> Inl e
         | Inr tsec \<Rightarrow>
             Inr \<lparr>hours = tsec div 3600,
                  minutes = (tsec mod 3600) div 60,
                  seconds = (tsec mod 3600) mod 60,
                  ms = py_int (frac * 1000)\<rparr>)"

definition time_str :: "time_fields \<Rightarrow> string" where
  \<comment> \<open>Lines 112 and 113 of extractor.py.\<close>
  "time_str t =
     format_d 2 (hours t) @ ''_'' @ format_d 2 (minutes t) @ ''_'' @ format_d 2 (seconds t)
       @ ''_'' @ format_d 3 (ms t)"

definition frames_to_time_str :: "int \<Rightarrow> rat \<Rightarrow> error + string" where
  "frames_to_time_str frame_count fps =
     (case split_time frame_count fps of Inl e \<Rightarrow> Inl e | Inr t \<Rightarrow> Inr (time_str t))"

subsection \<open>The detector: the body of the scene loop of \<^verbatim>\<open>main\<close>\<close>

record 'i interval =
  start_frame :: int
  end_frame :: int
  image :: 'i

datatype transition = Seed | Enter_open | Stay_open | Exit_open | Stay_idle

record 'i detector =
  last_img :: "'i option"
  subtitle_present :: bool
  subtitle_start_frame :: int
  saved :: "'i interval list"
  visited :: "transition list"

text \<open>
  \<open>saved\<close> lists the \<^verbatim>\<open>cv2.imwrite\<close> calls of the scene, oldest first: the frames
  whose time strings make the file name, and the image written. \<open>visited\<close> is a history
  variable: the branch of lines 168 to 186 that each processed frame took.
\<close>

definition fresh :: "'i detector" where
  \<comment> \<open>Lines 156 to 158.\<close>
  "fresh = \<lparr>last_img = None, subtitle_present = False, subtitle_start_frame = 0,
            saved = [], visited = []\<rparr>"

definition min_duration_frames :: "rat \<Rightarrow> int" where
  \<comment> \<open>\<^verbatim>\<open>int(fps * 0.2)\<close>\<close>
  "min_duration_frames fps = py_int (fps * (2 / 10))"

definition save_if_long :: "rat \<Rightarrow> int \<Rightarrow> 'i \<Rightarrow> 'i detector \<Rightarrow> 'i detector" where
  \<comment> \<open>Lines 179 to 185, and again 192 to 198.\<close>
  "save_if_long fps sub_end_frame img st =
     (if sub_end_frame > subtitle_start_frame st + min_duration_frames fps
      then st\<lparr>saved := saved st @
             [\<lparr>start_frame = subtitle_start_frame st, end_frame = sub_end_frame, image = img\<rparr>]\<rparr>
      else st)"

definition frame_step ::
  "('i \<Rightarrow> 'i \<Rightarrow> nat) \<Rightarrow> rat \<Rightarrow> rat \<Rightarrow> int \<Rightarrow> 'i \<Rightarrow> 'i detector \<Rightarrow> 'i detector" where
  \<comment> \<open>Lines 168 to 188, for one decoded frame.\<close>
  "frame_step score change_threshold fps frame_number sub_region st =
     (case last_img st of
        None \<Rightarrow> st\<lparr>last_img := Some sub_region, visited := visited st @ [Seed]\<rparr>
      | Some prev \<Rightarrow>
          (let diff_score = score sub_region prev in
           if of_nat diff_score > change_threshold then
             (if \<not> subtitle_present st
              then st\<lparr>subtitle_present := True, subtitle_start_frame := frame_number,
                      last_img := Some sub_region, visited := visited st @ [Enter_open]\<rparr>
              else st\<lparr>last_img := Some sub_region, visited := visited st @ [Stay_open]\<rparr>)
           else
             (if subtitle_present st
              then (save_if_long fps (frame_number - 1) prev st)
                     \<lparr>subtitle_present := False, last_img := Some sub_region,
                      visited := visited st @ [Exit_open]\<rparr>
              else st\<lparr>last_img := Some sub_region, visited := visited st @ [Stay_idle]\<rparr>)))"

fun scene_loop ::
  "('f \<Rightarrow> 'i) \<Rightarrow> ('i \<Rightarrow> 'i \<Rightarrow> nat) \<Rightarrow> rat \<Rightarrow> rat \<Rightarrow> (int \<Rightarrow> 'f option) \<Rightarrow> int list
     \<Rightarrow> 'i detector \<Rightarrow> 'i detector" where
  \<comment> \<open>Lines 161 to 188: the frame numbers of the range in order; a failed read breaks.\<close>
  "scene_loop crop score thr fps video [] st = st"
| "scene_loop crop score thr fps video (frame_number # rest) st =
     (case video frame_number of
        None \<Rightarrow> st
      | Some frame \<Rightarrow>
          scene_loop crop score thr fps video rest
            (frame_step score thr fps frame_number (crop frame) st))"

definition scene_flush :: "rat \<Rightarrow> int \<Rightarrow> 'i detector \<Rightarrow> 'i detector" where
  \<comment> \<open>Lines 190 to 198.\<close>
  "scene_flush fps scene_end st =
     (case last_img st of
        None \<Rightarrow> st
      | Some img \<Rightarrow> if subtitle_present st then save_if_long fps (scene_end - 1) img st else st)"

definition process_scene ::
  "('f \<Rightarrow> 'i) \<Rightarrow> ('i \<Rightarrow> 'i \<Rightarrow> nat) \<Rightarrow> rat \<Rightarrow> rat \<Rightarrow> (int \<Rightarrow> 'f option) \<Rightarrow> int \<times> int
     \<Rightarrow> 'i detector" where
  \<comment> \<open>Lines 154 to 198 for one scene \<open>(start, end)\<close>; the read position is set to the
      start, so the frame read in the iteration of \<open>frame_number\<close> is the one there.\<close>
  "process_scene crop score thr fps video scene =
     scene_flush fps (snd scene)
       (scene_loop crop score thr fps video [fst scene .. snd scene - 1] fresh)"

subsection \<open>The legal state sequences of the detector\<close>

fun trace_step :: "bool option \<Rightarrow> transition \<Rightarrow> bool option" where
  "trace_step None t = None"
| "trace_step (Some opn) Seed = (if opn then None else Some False)"
| "trace_step (Some opn) Enter_open = (if opn then None else Some True)"
| "trace_step (Some opn) Stay_open = (if opn then Some True else None)"
| "trace_step (Some opn) Exit_open = (if opn then Some False else None)"
| "trace_step (Some opn) Stay_idle = (if opn then None else Some False)"

definition alternates :: "transition list \<Rightarrow> bool" where
  "alternates ts = (foldl trace_step (Some False) ts \<noteq> None)"

definition open_has_image :: "'i detector \<Rightarrow> bool" where
  "open_has_image st = (subtitle_present st \<longrightarrow> last_img st \<noteq> None)"

subsection \<open>Concrete inputs\<close>

definition ramp :: "int \<Rightarrow> nat" where
  "ramp k = (if k < 10 then 0 else if k < 30 then nat k else 29)"

definition abs_diff :: "nat \<Rightarrow> nat \<Rightarrow> nat" where
  "abs_diff a b = (a - b) + (b - a)"

definition open_at_10 :: "nat detector" where
  "open_at_10 = \<lparr>last_img = Some 29, subtitle_present = True, subtitle_start_frame = 10,
                 saved = [], visited = []\<rparr>"

definition ramp_b :: "int \<Rightarrow> nat" where
  "ramp_b k = (if k < 5 then 0 else nat k)"

definition all_long :: "rat \<Rightarrow> 'i detector \<Rightarrow> bool" where
  "all_long fps st = (\<forall>iv\<in>set (saved st). min_duration_frames fps < end_frame iv - start_frame iv)"

definition starts_after :: "int \<Rightarrow> 'i detector \<Rightarrow> bool" where
  "starts_after s st = ((subtitle_present st \<longrightarrow> s < subtitle_start_frame st)
                        \<and> (\<forall>iv\<in>set (saved st). s < start_frame iv))"

definition trace_agrees :: "'i detector \<Rightarrow> bool" where
  "trace_agrees st = (foldl trace_step (Some False) (visited st) = Some (subtitle_present st)
                       \<and> open_has_image st)"

subsection \<open>The driver: \<^verbatim>\<open>main\<close>\<close>

text \<open>
  The output folder is \<open>None\<close> when the directory does not exist, and otherwise the
  map from the names of its files to their contents. \<open>roi\<close> is the rectangle given on
  the command line, \<open>picked\<close> what \<^verbatim>\<open>select_subtitle_area\<close> returns when it is
  called (\<open>None\<close> when the video cannot be opened there or nothing is selected).
  \<open>scenes\<close> is the result of PySceneDetect: the scene list in frame numbers, or the
  exception of \<^verbatim>\<open>open_video\<close> for a video it cannot open.
\<close>

type_synonym rect = "int \<times> int \<times> int \<times> int"

type_synonym 'i folder = "(string \<Rightarrow> 'i option) option"

datatype outcome = No_region_selected | No_scenes_detected | Finished nat | Raised error

definition lookup_file :: "'i folder \<Rightarrow> string \<Rightarrow> 'i option" where
  "lookup_file d name = (case d of None \<Rightarrow> None | Some fs \<Rightarrow> fs name)"

definition prepare_folder :: "'i folder \<Rightarrow> (string \<Rightarrow> 'i option)" where
  \<comment> \<open>Lines 121 to 128: create the folder, or remove its files that end in .png.\<close>
  "prepare_folder d =
     (case d of
        None \<Rightarrow> (\<lambda>f. None)
      | Some fs \<Rightarrow> (\<lambda>f. if endswith f ''.png'' then None else fs f))"

definition img_name :: "rat \<Rightarrow> int \<Rightarrow> int \<Rightarrow> error + string" where
  \<comment> \<open>Lines 180 to 182.\<close>
  "img_name fps subtitle_start sub_end_frame =
     (case frames_to_time_str subtitle_start fps of
        Inl e \<Rightarrow> Inl e
      | Inr start_time_str \<Rightarrow>
          (case frames_to_time_str sub_end_frame fps of
             Inl e \<Rightarrow> Inl e
           | Inr end_time_str \<Rightarrow> Inr (start_time_str @ ''__'' @ end_time_str @ ''.png'')))"

record 'i run_state =
  files :: "string \<Rightarrow> 'i option"
  total_images_saved :: nat

fun write_images :: "rat \<Rightarrow> 'i interval list \<Rightarrow> 'i run_state \<Rightarrow> error option \<times> 'i run_state" where
  \<comment> \<open>The \<^verbatim>\<open>cv2.imwrite\<close> calls of one scene, in order (lines 180 to 185, 193 to 198);
      an exception of the time string leaves the files written so far.\<close>
  "write_images fps [] rs = (None, rs)"
| "write_images fps (iv # ivs) rs =
     (case img_name fps (start_frame iv) (end_frame iv) of
        Inl e \<Rightarrow> (Some e, rs)
      | Inr name \<Rightarrow>
          write_images fps ivs
            (rs\<lparr>files := (files rs)(name \<mapsto> image iv),
                total_images_saved := total_images_saved rs + 1\<rparr>))"

fun scenes_loop ::
  "('f \<Rightarrow> 'i) \<Rightarrow> ('i \<Rightarrow> 'i \<Rightarrow> nat) \<Rightarrow> rat \<Rightarrow> rat \<Rightarrow> (int \<Rightarrow> 'f option) \<Rightarrow> (int \<times> int) list
     \<Rightarrow> 'i run_state \<Rightarrow> error option \<times> 'i run_state" where
  \<comment> \<open>Lines 153 to 198.\<close>
  "scenes_loop crop score thr fps video [] rs = (None, rs)"
| "scenes_loop crop score thr fps video (scene # rest) rs =
     (case write_images fps (saved (process_scene crop score thr fps video scene)) rs of
        (Some e, rs') \<Rightarrow> (Some e, rs')
      | (None, rs') \<Rightarrow> scenes_loop crop score thr fps video rest rs')"

definition main ::
  "(rect \<Rightarrow> 'f \<Rightarrow> 'i) \<Rightarrow> ('i \<Rightarrow> 'i \<Rightarrow> nat) \<Rightarrow> rat \<Rightarrow> rect option \<Rightarrow> rect option
     \<Rightarrow> error + (int \<times> int) list \<Rightarrow> rat \<Rightarrow> (int \<Rightarrow> 'f option) \<Rightarrow> 'i folder
     \<Rightarrow> outcome \<times> 'i folder" where
  "main crop score change_threshold roi picked scenes fps video temp_folder =
     (let cleared = prepare_folder temp_folder;
          crop_rect = (case roi of Some r \<Rightarrow> Some r | None \<Rightarrow> picked)
      in case crop_rect of
           None \<Rightarrow> (No_region_selected, Some cleared)
         | Some r \<Rightarrow>
             (case scenes of
                Inl e \<Rightarrow> (Raised e, Some cleared)
              | Inr scene_list \<Rightarrow>
                  if scene_list = [] then (No_scenes_detected, Some cleared)
                  else
                    (case scenes_loop (crop r) score change_threshold fps video scene_list
                            \<lparr>files = cleared, total_images_saved = 0\<rparr> of
                       (Some e, rs) \<Rightarrow> (Raised e, Some (files rs))
                     | (None, rs) \<Rightarrow> (Finished (total_images_saved rs), Some (files rs)))))"

definition old_folder :: "nat folder" where
  "old_folder = Some ((\<lambda>f. None)(''00_00_01_000__00_00_02_000.png'' \<mapsto> 7, ''notes.txt'' \<mapsto> 3))"

definition whole_frame :: "rect \<Rightarrow> nat \<Rightarrow> nat" where
  "whole_frame r frame = frame"

section \<open>Properties\<close>

subsection \<open>Single steps and runs of the scene loop\<close>

lemma step_closes:
  assumes "last_img st = Some prev" "subtitle_present st" "\<not> thr < of_nat (score sub prev)"
  shows "\<not> subtitle_present (frame_step score thr fps n sub st)
       \<and> last_img (frame_step score thr fps n sub st) = Some sub
       \<and> subtitle_start_frame (frame_step score thr fps n sub st) = subtitle_start_frame st
       \<and> saved (frame_step score thr fps n sub st) = saved st @
           (if (n - 1) - subtitle_start_frame st > min_duration_frames fps
            then [\<lparr>start_frame = subtitle_start_frame st, end_frame = n - 1, image = prev\<rparr>] else [])"
  using assms by (simp add: frame_step_def save_if_long_def)

lemma step_seed:
  assumes "last_img st = None"
  shows "frame_step score thr fps n sub st = st\<lparr>last_img := Some sub, visited := visited st @ [Seed]\<rparr>"
  using assms by (simp add: frame_step_def)

lemma step_enters:
  assumes "last_img st = Some prev" "\<not> subtitle_present st" "thr < of_nat (score sub prev)"
  shows "subtitle_present (frame_step score thr fps n sub st)
       \<and> last_img (frame_step score thr fps n sub st) = Some sub
       \<and> subtitle_start_frame (frame_step score thr fps n sub st) = n
       \<and> saved (frame_step score thr fps n sub st) = saved st"
  using assms by (simp add: frame_step_def)

lemma step_stays_open:
  assumes "last_img st = Some prev" "subtitle_present st" "thr < of_nat (score sub prev)"
  shows "subtitle_present (frame_step score thr fps n sub st)
       \<and> last_img (frame_step score thr fps n sub st) = Some sub
       \<and> subtitle_start_frame (frame_step score thr fps n sub st) = subtitle_start_frame st
       \<and> saved (frame_step score thr fps n sub st) = saved st"
  using assms by (simp add: frame_step_def)

lemma step_stays_idle:
  assumes "last_img st = Some prev" "\<not> subtitle_present st" "\<not> thr < of_nat (score sub prev)"
  shows "\<not> subtitle_present (frame_step score thr fps n sub st)
       \<and> last_img (frame_step score thr fps n sub st) = Some sub
       \<and> subtitle_start_frame (frame_step score thr fps n sub st) = subtitle_start_frame st
       \<and> saved (frame_step score thr fps n sub st) = saved st"
  using assms by (simp add: frame_step_def)

lemma loop_append:
  "scene_loop crop score thr fps (\<lambda>k. Some (F k)) (xs @ ys) st =
   scene_loop crop score thr fps (\<lambda>k. Some (F k)) ys
     (scene_loop crop score thr fps (\<lambda>k. Some (F k)) xs st)"
  by (induction xs arbitrary: st) simp_all

lemma loop_idle:
  assumes "\<not> subtitle_present st" "last_img st = Some (crop (F (a - 1)))"
    and "\<forall>k. a \<le> k \<and> k \<le> b \<longrightarrow> \<not> thr < of_nat (score (crop (F k)) (crop (F (k - 1))))"
    and "a \<le> b + 1"
  shows "\<not> subtitle_present (scene_loop crop score thr fps (\<lambda>k. Some (F k)) [a..b] st)
       \<and> last_img (scene_loop crop score thr fps (\<lambda>k. Some (F k)) [a..b] st) = Some (crop (F b))
       \<and> saved (scene_loop crop score thr fps (\<lambda>k. Some (F k)) [a..b] st) = saved st"
  using assms
proof (induction "nat (b + 1 - a)" arbitrary: a st)
  case 0
  then have "a = b + 1" by simp
  with 0 show ?case by simp
next
  case (Suc m)
  then have ab: "a \<le> b" by simp
  let ?st = "frame_step score thr fps a (crop (F a)) st"
  have s: "\<not> subtitle_present ?st \<and> last_img ?st = Some (crop (F a)) \<and> saved ?st = saved st"
    using step_stays_idle[OF Suc.prems(2) Suc.prems(1), of thr score "crop (F a)" fps a] Suc.prems(3) ab
    by simp
  have "\<not> subtitle_present (scene_loop crop score thr fps (\<lambda>k. Some (F k)) [a + 1..b] ?st)
       \<and> last_img (scene_loop crop score thr fps (\<lambda>k. Some (F k)) [a + 1..b] ?st) = Some (crop (F b))
       \<and> saved (scene_loop crop score thr fps (\<lambda>k. Some (F k)) [a + 1..b] ?st) = saved ?st"
    using Suc.hyps(2) s Suc.prems(3) ab
    by (intro Suc.hyps(1)) auto
  then show ?case using ab s by (simp add: upto_rec1[of a b])
qed

lemma loop_open:
  assumes "subtitle_present st" "last_img st = Some (crop (F (a - 1)))"
    and "\<forall>k. a \<le> k \<and> k \<le> b \<longrightarrow> thr < of_nat (score (crop (F k)) (crop (F (k - 1))))"
    and "a \<le> b + 1"
  shows "subtitle_present (scene_loop crop score thr fps (\<lambda>k. Some (F k)) [a..b] st)
       \<and> last_img (scene_loop crop score thr fps (\<lambda>k. Some (F k)) [a..b] st) = Some (crop (F b))
       \<and> subtitle_start_frame (scene_loop crop score thr fps (\<lambda>k. Some (F k)) [a..b] st) = subtitle_start_frame st
       \<and> saved (scene_loop crop score thr fps (\<lambda>k. Some (F k)) [a..b] st) = saved st"
  using assms
proof (induction "nat (b + 1 - a)" arbitrary: a st)
  case 0
  then have "a = b + 1" by simp
  with 0 show ?case by simp
next
  case (Suc m)
  then have ab: "a \<le> b" by simp
  let ?st = "frame_step score thr fps a (crop (F a)) st"
  have s: "subtitle_present ?st \<and> last_img ?st = Some (crop (F a)) 
     \<and> subtitle_start_frame ?st = subtitle_start_frame st \<and> saved ?st = saved st"
    using step_stays_open[OF Suc.prems(2) Suc.prems(1), of thr score "crop (F a)" fps a] Suc.prems(3) ab
    by simp
  have "subtitle_present (scene_loop crop score thr fps (\<lambda>k. Some (F k)) [a + 1..b] ?st)
       \<and> last_img (scene_loop crop score thr fps (\<lambda>k. Some (F k)) [a + 1..b] ?st) = Some (crop (F b))
       \<and> subtitle_start_frame (scene_loop crop score thr fps (\<lambda>k. Some (F k)) [a + 1..b] ?st) = subtitle_start_frame ?st
       \<and> saved (scene_loop crop score thr fps (\<lambda>k. Some (F k)) [a + 1..b] ?st) = saved ?st"
    using Suc.hyps(2) s Suc.prems(3) ab
    by (intro Suc.hyps(1)) auto
  then show ?case using ab s by (simp add: upto_rec1[of a b])
qed

lemma single_burst:
  fixes F :: "int \<Rightarrow> 'f" and crop :: "'f \<Rightarrow> 'i"
  assumes sa: "s < a" and ab: "a < b" and be: "b \<le> e"
    and low1: "\<forall>k. s < k \<and> k < a \<longrightarrow> \<not> thr < of_nat (score (crop (F k)) (crop (F (k - 1))))"
    and high: "\<forall>k. a \<le> k \<and> k < b \<longrightarrow> thr < of_nat (score (crop (F k)) (crop (F (k - 1))))"
    and low2: "\<forall>k. b \<le> k \<and> k < e \<longrightarrow> \<not> thr < of_nat (score (crop (F k)) (crop (F (k - 1))))"
  shows "saved (process_scene crop score thr fps (\<lambda>k. Some (F k)) (s, e)) =
           (if b - 1 - a > min_duration_frames fps
            then [\<lparr>start_frame = a, end_frame = b - 1, image = crop (F (b - 1))\<rparr>] else [])"
proof -
  let ?L = "scene_loop crop score thr fps (\<lambda>k. Some (F k))"
  let ?step = "\<lambda>n st. frame_step score thr fps n (crop (F n)) st"
  define st0 where "st0 = ?step s (fresh :: 'i detector)"
  define st1 where "st1 = ?L [s + 1..a - 1] st0"
  define st2 where "st2 = ?step a st1"
  define st3 where "st3 = ?L [a + 1..b - 1] st2"
  have p0: "\<not> subtitle_present st0 \<and> last_img st0 = Some (crop (F s)) \<and> saved st0 = []"
    by (simp add: st0_def step_seed fresh_def)
  have p1: "\<not> subtitle_present st1 \<and> last_img st1 = Some (crop (F (a - 1))) \<and> saved st1 = []"
    unfolding st1_def
    using loop_idle[of st0 crop F "s + 1" "a - 1" thr score fps] p0 low1 sa by simp
  have p2: "subtitle_present st2 \<and> last_img st2 = Some (crop (F a))
      \<and> subtitle_start_frame st2 = a \<and> saved st2 = []"
    unfolding st2_def
    using step_enters[of st1 "crop (F (a - 1))" thr score "crop (F a)" fps a] p1 high ab by simp
  have p3: "subtitle_present st3 \<and> last_img st3 = Some (crop (F (b - 1)))
      \<and> subtitle_start_frame st3 = a \<and> saved st3 = []"
    unfolding st3_def
    using loop_open[of st2 crop F "a + 1" "b - 1" thr score fps] p2 high ab by simp
  have split: "[s..e - 1] = [s] @ [s + 1..a - 1] @ [a] @ [a + 1..b - 1] @ [b..e - 1]"
  proof -
    have "[s..e - 1] = s # [s + 1..e - 1]" using sa ab be by (simp add: upto_rec1)
    also have "[s + 1..e - 1] = [s + 1..a - 1] @ [a..e - 1]"
      using sa ab be upto_split1[of "s + 1" a "e - 1"] by simp
    also have "[a..e - 1] = a # [a + 1..e - 1]" using ab be by (simp add: upto_rec1)
    also have "[a + 1..e - 1] = [a + 1..b - 1] @ [b..e - 1]"
      using ab be upto_split1[of "a + 1" b "e - 1"] by (cases "b = e") auto
    finally show ?thesis by simp
  qed
  have run: "?L [s..e - 1] fresh = ?L [b..e - 1] st3"
    unfolding split loop_append by (simp add: st0_def st1_def st2_def st3_def)
  show ?thesis
  proof (cases "b = e")
    case True
    then have "?L [s..e - 1] fresh = st3" using run by simp
    then show ?thesis using p3 True
      by (simp add: process_scene_def scene_flush_def save_if_long_def)
  next
    case False
    then have lt: "b < e" using be by simp
    define st4 where "st4 = ?step b st3"
    define st5 where "st5 = ?L [b + 1..e - 1] st4"
    have p4: "\<not> subtitle_present st4 \<and> last_img st4 = Some (crop (F b)) \<and> saved st4 =
           (if b - 1 - a > min_duration_frames fps
            then [\<lparr>start_frame = a, end_frame = b - 1, image = crop (F (b - 1))\<rparr>] else [])"
      unfolding st4_def
      using step_closes[of st3 "crop (F (b - 1))" thr score "crop (F b)" fps b] p3 low2 lt by simp
    have p5: "\<not> subtitle_present st5 \<and> saved st5 = saved st4"
      unfolding st5_def
      using loop_idle[of st4 crop F "b + 1" "e - 1" thr score fps] p4 low2 lt by simp
    have "[b..e - 1] = b # [b + 1..e - 1]" using lt by (simp add: upto_rec1)
    then have "?L [s..e - 1] fresh = st5" using run by (simp add: st4_def st5_def)
    then show ?thesis using p4 p5
      by (simp add: process_scene_def scene_flush_def split: option.splits)
  qed
qed

lemma min_duration_25: "min_duration_frames 25 = 5"
  by (simp add: min_duration_frames_def py_int_def)

lemma floor_le_py_int: "\<lfloor>x\<rfloor> \<le> py_int x"
  by (simp add: py_int_def floor_le_ceiling)

lemma step_has_image: "last_img (frame_step score thr fps n sub st) = Some sub"
  by (simp add: frame_step_def save_if_long_def split: option.splits)

lemma loop_open_has_image:
  "open_has_image st \<Longrightarrow> open_has_image (scene_loop crop score thr fps video ns st)"
proof (induction ns arbitrary: st)
  case Nil then show ?case by simp
next
  case (Cons n ns)
  show ?case
  proof (cases "video n")
    case None then show ?thesis using Cons.prems by simp
  next
    case (Some frame)
    have "open_has_image (frame_step score thr fps n (crop frame) st)"
      by (simp add: open_has_image_def step_has_image)
    then show ?thesis using Some Cons.IH by simp
  qed
qed

lemma fresh_open_has_image: "open_has_image fresh"
  by (simp add: open_has_image_def fresh_def)

subsection \<open>Claims about the detector\<close>

text \<open>
  C1. In state OPEN, a frame whose score is at most the threshold closes the interval at
  the frame before it: the interval is saved exactly when its end minus its start exceeds
  \<open>int(fps * 0.2)\<close>, with the sub-region of the previous frame as its image, and the
  state is IDLE afterwards in both cases. In particular a 50-frame scene at 25 fps whose
  score exceeds the threshold on frames 10 to 29 and on no other frame saves exactly the
  interval from 10 to 29 with the sub-region of frame 29.
\<close>

theorem close_on_stable_frame:
  fixes st :: "'i detector" and crop :: "'f \<Rightarrow> 'i" and F :: "int \<Rightarrow> 'f"
  shows "(last_img st = Some prev \<and> subtitle_present st
            \<and> \<not> change_threshold < of_nat (score sub_region prev) \<longrightarrow>
          \<not> subtitle_present (frame_step score change_threshold fps frame_number sub_region st)
          \<and> saved (frame_step score change_threshold fps frame_number sub_region st) =
              saved st @
              (if (frame_number - 1) - subtitle_start_frame st > min_duration_frames fps
               then [\<lparr>start_frame = subtitle_start_frame st, end_frame = frame_number - 1,
                      image = prev\<rparr>]
               else []))
       \<and> ((\<forall>k\<in>{1..9}. \<not> change_threshold < of_nat (score (crop (F k)) (crop (F (k - 1)))))
            \<and> (\<forall>k\<in>{10..29}. change_threshold < of_nat (score (crop (F k)) (crop (F (k - 1)))))
            \<and> (\<forall>k\<in>{30..49}. \<not> change_threshold < of_nat (score (crop (F k)) (crop (F (k - 1)))))
          \<longrightarrow> saved (process_scene crop score change_threshold 25 (\<lambda>k. Some (F k)) (0, 50)) =
                [\<lparr>start_frame = 10, end_frame = 29, image = crop (F 29)\<rparr>])"
proof (intro conjI impI)
  assume "last_img st = Some prev \<and> subtitle_present st
            \<and> \<not> change_threshold < of_nat (score sub_region prev)"
  then show "\<not> subtitle_present (frame_step score change_threshold fps frame_number sub_region st)"
    and "saved (frame_step score change_threshold fps frame_number sub_region st) =
              saved st @
              (if (frame_number - 1) - subtitle_start_frame st > min_duration_frames fps
               then [\<lparr>start_frame = subtitle_start_frame st, end_frame = frame_number - 1,
                      image = prev\<rparr>]
               else [])"
    using step_closes[of st prev change_threshold score sub_region fps frame_number] by simp_all
next
  assume h: "(\<forall>k\<in>{1..9}. \<not> change_threshold < of_nat (score (crop (F k)) (crop (F (k - 1)))))
            \<and> (\<forall>k\<in>{10..29}. change_threshold < of_nat (score (crop (F k)) (crop (F (k - 1)))))
            \<and> (\<forall>k\<in>{30..49}. \<not> change_threshold < of_nat (score (crop (F k)) (crop (F (k - 1)))))"
  have "saved (process_scene crop score change_threshold 25 (\<lambda>k. Some (F k)) (0, 50)) =
           (if 30 - 1 - 10 > min_duration_frames 25
            then [\<lparr>start_frame = 10, end_frame = 30 - 1, image = crop (F (30 - 1))\<rparr>] else [])"
    using h by (intro single_burst) auto
  then show "saved (process_scene crop score change_threshold 25 (\<lambda>k. Some (F k)) (0, 50)) =
                [\<lparr>start_frame = 10, end_frame = 29, image = crop (F 29)\<rparr>]"
    by (simp add: min_duration_25)
qed

theorem close_on_stable_frame_witness:
  "last_img open_at_10 = Some 29 \<and> subtitle_present open_at_10
   \<and> \<not> subtitle_present (frame_step abs_diff 0 25 30 29 open_at_10)
   \<and> saved (frame_step abs_diff 0 25 30 29 open_at_10) =
        [\<lparr>start_frame = 10, end_frame = 29, image = 29\<rparr>]
   \<and> saved (process_scene id abs_diff 0 25 (\<lambda>k. Some (ramp k)) (0, 50)) =
        [\<lparr>start_frame = 10, end_frame = 29, image = 29\<rparr>]"
proof -
  have a: "\<forall>k\<in>{1..9}. \<not> (0::rat) < of_nat (abs_diff (id (ramp k)) (id (ramp (k - 1))))"
    by (simp add: ramp_def abs_diff_def)
  have b: "\<forall>k\<in>{10..29}. (0::rat) < of_nat (abs_diff (id (ramp k)) (id (ramp (k - 1))))"
    by (auto simp add: ramp_def abs_diff_def)
  have c: "\<forall>k\<in>{30..49}. \<not> (0::rat) < of_nat (abs_diff (id (ramp k)) (id (ramp (k - 1))))"
    by (simp add: ramp_def abs_diff_def)
  have d: "last_img open_at_10 = Some 29 \<and> subtitle_present open_at_10
      \<and> \<not> (0::rat) < of_nat (abs_diff 29 29)"
    by (simp add: open_at_10_def abs_diff_def)
  show ?thesis
    using close_on_stable_frame[of open_at_10 29 0 abs_diff 29 25 30 id ramp] a b c d
    by (simp add: min_duration_25 open_at_10_def ramp_def)
qed

lemma flush_saved:
  assumes "subtitle_present st" "last_img st = Some img"
  shows "saved (scene_flush fps scene_end st) = saved st @
           (if (scene_end - 1) - subtitle_start_frame st > min_duration_frames fps
            then [\<lparr>start_frame = subtitle_start_frame st, end_frame = scene_end - 1, image = img\<rparr>]
            else [])"
  using assms by (simp add: scene_flush_def save_if_long_def)

text \<open>
  C2. When the frames of a scene are used up (or a read fails) in state OPEN, the flush after
  the loop closes the interval at the scene's end frame minus one, saves it exactly when
  that end minus the start exceeds \<open>int(fps * 0.2)\<close>, and uses the last stored
  sub-region as the image. In particular, when the score exceeds the threshold from frame 5
  up to the last frame 19 of a scene that ends at 20, and the minimum duration is below 14
  frames, the interval from 5 to 19 is saved with the sub-region of frame 19.
\<close>

theorem flush_at_scene_end:
  fixes crop :: "'f \<Rightarrow> 'i" and F :: "int \<Rightarrow> 'f" and video :: "int \<Rightarrow> 'f option"
  shows "(subtitle_present (scene_loop crop score thr fps video [fst scene..snd scene - 1] fresh) \<longrightarrow>
           (\<exists>img. last_img (scene_loop crop score thr fps video [fst scene..snd scene - 1] fresh) = Some img
              \<and> saved (process_scene crop score thr fps video scene) =
                  saved (scene_loop crop score thr fps video [fst scene..snd scene - 1] fresh) @
                  (if (snd scene - 1)
                        - subtitle_start_frame (scene_loop crop score thr fps video [fst scene..snd scene - 1] fresh)
                      > min_duration_frames fps
                   then [\<lparr>start_frame =
                            subtitle_start_frame (scene_loop crop score thr fps video [fst scene..snd scene - 1] fresh),
                          end_frame = snd scene - 1, image = img\<rparr>]
                   else [])))
       \<and> (s < 5 \<and> min_duration_frames fps < 14
            \<and> (\<forall>k. s < k \<and> k < 5 \<longrightarrow> \<not> thr < of_nat (score (crop (F k)) (crop (F (k - 1)))))
            \<and> (\<forall>k\<in>{5..19}. thr < of_nat (score (crop (F k)) (crop (F (k - 1)))))
          \<longrightarrow> saved (process_scene crop score thr fps (\<lambda>k. Some (F k)) (s, 20)) =
                [\<lparr>start_frame = 5, end_frame = 19, image = crop (F 19)\<rparr>])"
proof (intro conjI impI)
  let ?lp = "scene_loop crop score thr fps video [fst scene..snd scene - 1] fresh"
  assume opn: "subtitle_present ?lp"
  have "open_has_image ?lp" by (intro loop_open_has_image fresh_open_has_image)
  then obtain img where img: "last_img ?lp = Some img"
    using opn by (auto simp add: open_has_image_def)
  have "saved (process_scene crop score thr fps video scene) = saved ?lp @
          (if (snd scene - 1) - subtitle_start_frame ?lp > min_duration_frames fps
           then [\<lparr>start_frame = subtitle_start_frame ?lp, end_frame = snd scene - 1, image = img\<rparr>]
           else [])"
    unfolding process_scene_def using flush_saved[OF opn img] by simp
  with img show "\<exists>img. last_img ?lp = Some img
              \<and> saved (process_scene crop score thr fps video scene) = saved ?lp @
                  (if (snd scene - 1) - subtitle_start_frame ?lp > min_duration_frames fps
                   then [\<lparr>start_frame = subtitle_start_frame ?lp,
                          end_frame = snd scene - 1, image = img\<rparr>]
                   else [])"
    by blast
next
  assume h: "s < 5 \<and> min_duration_frames fps < 14
            \<and> (\<forall>k. s < k \<and> k < 5 \<longrightarrow> \<not> thr < of_nat (score (crop (F k)) (crop (F (k - 1)))))
            \<and> (\<forall>k\<in>{5..19}. thr < of_nat (score (crop (F k)) (crop (F (k - 1)))))"
  have "saved (process_scene crop score thr fps (\<lambda>k. Some (F k)) (s, 20)) =
           (if 20 - 1 - 5 > min_duration_frames fps
            then [\<lparr>start_frame = 5, end_frame = 20 - 1, image = crop (F (20 - 1))\<rparr>] else [])"
    using h by (intro single_burst) auto
  then show "saved (process_scene crop score thr fps (\<lambda>k. Some (F k)) (s, 20)) =
                [\<lparr>start_frame = 5, end_frame = 19, image = crop (F 19)\<rparr>]"
    using h by simp
qed

lemma run_b: "saved (process_scene id abs_diff 0 25 (\<lambda>k. Some (ramp_b k)) (0, 20)) =
        [\<lparr>start_frame = 5, end_frame = 19, image = 19\<rparr>]"
  by code_simp

lemma step_all_long: "all_long fps st \<Longrightarrow> all_long fps (frame_step score thr fps n sub st)"
  by (auto simp add: all_long_def frame_step_def save_if_long_def split: option.splits)

lemma loop_all_long:
  "all_long fps st \<Longrightarrow> all_long fps (scene_loop crop score thr fps video ns st)"
  by (induction ns arbitrary: st) (auto simp add: step_all_long split: option.splits)

lemma flush_all_long: "all_long fps st \<Longrightarrow> all_long fps (scene_flush fps e st)"
  by (auto simp add: all_long_def scene_flush_def save_if_long_def split: option.splits)

lemma scene_all_long: "all_long fps (process_scene crop score thr fps video scene)"
  unfolding process_scene_def
  by (intro flush_all_long loop_all_long) (simp add: all_long_def fresh_def)

lemma step_starts_after:
  "starts_after s st \<Longrightarrow> (last_img st \<noteq> None \<longrightarrow> s < n)
     \<Longrightarrow> starts_after s (frame_step score thr fps n sub st)"
  by (auto simp add: starts_after_def frame_step_def save_if_long_def split: option.splits)

lemma loop_starts_after:
  "starts_after s st \<Longrightarrow> (last_img st \<noteq> None \<longrightarrow> (\<forall>n\<in>set ns. s < n))
     \<Longrightarrow> (last_img st = None \<longrightarrow> (\<forall>n\<in>set (tl ns). s < n))
     \<Longrightarrow> starts_after s (scene_loop crop score thr fps video ns st)"
proof (induction ns arbitrary: st)
  case Nil then show ?case by simp
next
  case (Cons n ns)
  show ?case
  proof (cases "video n")
    case None then show ?thesis using Cons.prems by simp
  next
    case (Some frame)
    let ?st = "frame_step score thr fps n (crop frame) st"
    have a: "starts_after s ?st" using Cons.prems by (intro step_starts_after) auto
    have b: "last_img ?st \<noteq> None" by (simp add: step_has_image)
    have c: "\<forall>m\<in>set ns. s < m" using Cons.prems by (cases "last_img st") auto
    have "starts_after s (scene_loop crop score thr fps video ns ?st)"
      using a b c by (intro Cons.IH) auto
    then show ?thesis using Some by simp
  qed
qed

lemma flush_starts_after: "starts_after s st \<Longrightarrow> starts_after s (scene_flush fps e st)"
  by (auto simp add: starts_after_def scene_flush_def save_if_long_def split: option.splits)

lemma scene_starts_after:
  "starts_after (fst scene) (process_scene crop score thr fps video scene)"
proof -
  have t: "\<forall>n\<in>set (tl [fst scene..snd scene - 1]). fst scene < n"
  proof (cases "fst scene \<le> snd scene - 1")
    case True
    then have "[fst scene..snd scene - 1] = fst scene # [fst scene + 1..snd scene - 1]"
      by (simp add: upto_rec1)
    then show ?thesis by simp
  next
    case False then show ?thesis by simp
  qed
  show ?thesis
    unfolding process_scene_def
    using t by (intro flush_starts_after loop_starts_after) (simp_all add: starts_after_def fresh_def)
qed

lemma step_trace_agrees: "trace_agrees st \<Longrightarrow> trace_agrees (frame_step score thr fps n sub st)"
  by (auto simp add: trace_agrees_def open_has_image_def frame_step_def save_if_long_def
      split: option.splits)

lemma loop_trace_agrees:
  "trace_agrees st \<Longrightarrow> trace_agrees (scene_loop crop score thr fps video ns st)"
  by (induction ns arbitrary: st) (auto simp add: step_trace_agrees split: option.splits)

lemma flush_trace_agrees: "trace_agrees st \<Longrightarrow> trace_agrees (scene_flush fps e st)"
  by (auto simp add: trace_agrees_def open_has_image_def scene_flush_def save_if_long_def
      split: option.splits)

lemma scene_trace_agrees: "trace_agrees (process_scene crop score thr fps video scene)"
  unfolding process_scene_def
  by (intro flush_trace_agrees loop_trace_agrees)
     (simp add: trace_agrees_def open_has_image_def fresh_def)

text \<open>
  C3. Debounce law. An interval whose end minus its start is at most \<open>floor(fps * 0.2)\<close>
  is never saved: not when a stable frame closes it in the middle of a scene, not by the
  flush at the end of the scene, and so no interval saved for a scene is that short.
\<close>

theorem debounce_law:
  "(subtitle_present st \<and> last_img st = Some prev \<and> \<not> thr < of_nat (score sub prev)
      \<and> (n - 1) - subtitle_start_frame st \<le> \<lfloor>fps * (2 / 10)\<rfloor>
     \<longrightarrow> saved (frame_step score thr fps n sub st) = saved st)
   \<and> (subtitle_present st \<and> (scene_end - 1) - subtitle_start_frame st \<le> \<lfloor>fps * (2 / 10)\<rfloor>
     \<longrightarrow> saved (scene_flush fps scene_end st) = saved st)
   \<and> (\<forall>iv\<in>set (saved (process_scene crop score thr fps video scene)).
         \<not> end_frame iv - start_frame iv \<le> \<lfloor>fps * (2 / 10)\<rfloor>)"
proof (intro conjI impI ballI)
  have le: "\<lfloor>fps * (2 / 10)\<rfloor> \<le> min_duration_frames fps"
    by (simp add: min_duration_frames_def floor_le_py_int)
  {
    assume "subtitle_present st \<and> last_img st = Some prev \<and> \<not> thr < of_nat (score sub prev)
      \<and> (n - 1) - subtitle_start_frame st \<le> \<lfloor>fps * (2 / 10)\<rfloor>"
    then show "saved (frame_step score thr fps n sub st) = saved st"
      using le by (simp add: frame_step_def save_if_long_def)
  }
  {
    assume "subtitle_present st \<and> (scene_end - 1) - subtitle_start_frame st \<le> \<lfloor>fps * (2 / 10)\<rfloor>"
    then show "saved (scene_flush fps scene_end st) = saved st"
      using le by (simp add: scene_flush_def save_if_long_def split: option.splits)
  }
  {
    fix iv assume "iv \<in> set (saved (process_scene crop score thr fps video scene))"
    then have "min_duration_frames fps < end_frame iv - start_frame iv"
      using scene_all_long[of fps crop score thr video scene] by (simp add: all_long_def)
    then show "\<not> end_frame iv - start_frame iv \<le> \<lfloor>fps * (2 / 10)\<rfloor>"
      using le by simp
  }
qed

text \<open>
  C10. The first decoded frame of a scene is compared with nothing: from the fresh state
  it only becomes the previous sub-region, whatever the score function is. Hence every
  interval saved for a scene starts strictly after the scene's start frame.
\<close>

theorem first_frame_only_seeds:
  "frame_step score thr fps n sub fresh = fresh\<lparr>last_img := Some sub, visited := [Seed]\<rparr>
   \<and> (\<forall>iv\<in>set (saved (process_scene crop score thr fps video scene)). fst scene < start_frame iv)"
  using scene_starts_after[of scene crop score thr fps video]
  by (simp add: starts_after_def frame_step_def fresh_def)

text \<open>
  C8. The states of the detector alternate. The branches taken by the frames of a scene
  form a word of the automaton \<open>trace_step\<close>, in which OPEN is entered only from
  IDLE and left only to IDLE, and the automaton ends in the state the detector is in. The
  entering branch is taken exactly from IDLE on a score above the threshold, the leaving
  branch exactly from OPEN on a score that is not above it.
\<close>

theorem states_alternate:
  "alternates (visited (process_scene crop score thr fps video scene))
   \<and> foldl trace_step (Some False) (visited (process_scene crop score thr fps video scene)) =
       Some (subtitle_present (process_scene crop score thr fps video scene))
   \<and> (visited (frame_step score thr fps n sub st) = visited st @ [Enter_open]) =
       (\<not> subtitle_present st \<and> (\<exists>prev. last_img st = Some prev \<and> thr < of_nat (score sub prev)))
   \<and> (visited (frame_step score thr fps n sub st) = visited st @ [Exit_open]) =
       (subtitle_present st \<and> (\<exists>prev. last_img st = Some prev \<and> \<not> thr < of_nat (score sub prev)))"
proof (intro conjI)
  show "foldl trace_step (Some False) (visited (process_scene crop score thr fps video scene)) =
       Some (subtitle_present (process_scene crop score thr fps video scene))"
    using scene_trace_agrees[of crop score thr fps video scene] by (simp add: trace_agrees_def)
  then show "alternates (visited (process_scene crop score thr fps video scene))"
    by (simp add: alternates_def)
  show "(visited (frame_step score thr fps n sub st) = visited st @ [Enter_open]) =
       (\<not> subtitle_present st \<and> (\<exists>prev. last_img st = Some prev \<and> thr < of_nat (score sub prev)))"
    by (auto simp add: frame_step_def save_if_long_def split: option.splits)
  show "(visited (frame_step score thr fps n sub st) = visited st @ [Exit_open]) =
       (subtitle_present st \<and> (\<exists>prev. last_img st = Some prev \<and> \<not> thr < of_nat (score sub prev)))"
    by (auto simp add: frame_step_def save_if_long_def split: option.splits)
qed

lemma run_a: "saved (process_scene id abs_diff 0 25 (\<lambda>k. Some (ramp k)) (0, 50)) =
        [\<lparr>start_frame = 10, end_frame = 29, image = 29\<rparr>]"
  by code_simp

theorem flush_at_scene_end_witness:
  "subtitle_present (scene_loop id abs_diff 0 25 (\<lambda>k. Some (ramp_b k)) [0..19] fresh)
   \<and> min_duration_frames 25 < 14
   \<and> saved (process_scene id abs_diff 0 25 (\<lambda>k. Some (ramp_b k)) (0, 20)) =
        [\<lparr>start_frame = 5, end_frame = 19, image = 19\<rparr>]"
proof -
  have a: "\<forall>k. 0 < k \<and> k < 5 \<longrightarrow> \<not> (0::rat) < of_nat (abs_diff (id (ramp_b k)) (id (ramp_b (k - 1))))"
    by (simp add: ramp_b_def abs_diff_def)
  have b: "\<forall>k\<in>{5..19}. (0::rat) < of_nat (abs_diff (id (ramp_b k)) (id (ramp_b (k - 1))))"
    by (auto simp add: ramp_b_def abs_diff_def)
  have c: "subtitle_present (scene_loop id abs_diff 0 25 (\<lambda>k. Some (ramp_b k)) [0..19] fresh)"
    by code_simp
  show ?thesis
    using flush_at_scene_end[of id abs_diff 0 25 "\<lambda>k. Some (ramp_b k)" "(0, 20)" 0 ramp_b] a b c
    by (simp add: min_duration_25 ramp_b_def)
qed

theorem debounce_law_witness:
  "subtitle_present open_at_10 \<and> (12 - 1) - subtitle_start_frame open_at_10 \<le> \<lfloor>(25::rat) * (2 / 10)\<rfloor>
   \<and> saved (frame_step abs_diff 0 25 12 29 open_at_10) = saved open_at_10
   \<and> saved (scene_flush 25 12 open_at_10) = saved open_at_10
   \<and> \<not> end_frame (hd (saved (process_scene id abs_diff 0 25 (\<lambda>k. Some (ramp k)) (0, 50))))
         - start_frame (hd (saved (process_scene id abs_diff 0 25 (\<lambda>k. Some (ramp k)) (0, 50))))
       \<le> \<lfloor>(25::rat) * (2 / 10)\<rfloor>"
proof -
  have h: "subtitle_present open_at_10 \<and> last_img open_at_10 = Some 29
      \<and> \<not> (0::rat) < of_nat (abs_diff 29 29)
      \<and> (12 - 1) - subtitle_start_frame open_at_10 \<le> \<lfloor>(25::rat) * (2 / 10)\<rfloor>"
    by (simp add: open_at_10_def abs_diff_def)
  have m: "hd (saved (process_scene id abs_diff 0 25 (\<lambda>k. Some (ramp k)) (0, 50)))
      \<in> set (saved (process_scene id abs_diff 0 25 (\<lambda>k. Some (ramp k)) (0, 50)))"
    by (simp add: run_a)
  show ?thesis
    using debounce_law[of open_at_10 29 0 abs_diff 29 12 25 12 id "\<lambda>k. Some (ramp k)" "(0, 50)"] h m
    by blast
qed

theorem first_frame_only_seeds_witness:
  "frame_step abs_diff 0 25 0 (ramp 0) fresh = fresh\<lparr>last_img := Some (ramp 0), visited := [Seed]\<rparr>
   \<and> saved (process_scene id abs_diff 0 25 (\<lambda>k. Some (ramp k)) (0, 50)) \<noteq> []
   \<and> fst (0::int, 50::int)
       < start_frame (hd (saved (process_scene id abs_diff 0 25 (\<lambda>k. Some (ramp k)) (0, 50))))"
proof -
  have m: "hd (saved (process_scene id abs_diff 0 25 (\<lambda>k. Some (ramp k)) (0, 50)))
      \<in> set (saved (process_scene id abs_diff 0 25 (\<lambda>k. Some (ramp k)) (0, 50)))"
    by (simp add: run_a)
  have n: "saved (process_scene id abs_diff 0 25 (\<lambda>k. Some (ramp k)) (0, 50)) \<noteq> []"
    by (simp add: run_a)
  show ?thesis
    using first_frame_only_seeds[of abs_diff 0 25 0 "ramp 0" id "\<lambda>k. Some (ramp k)" "(0, 50)"] m n
    by blast
qed

lemma prepare_folder_png: "endswith name ''.png'' \<Longrightarrow> prepare_folder d name = None"
  by (simp add: prepare_folder_def split: option.splits)

lemma prepare_folder_other:
  "\<not> endswith name ''.png'' \<Longrightarrow> prepare_folder d name = lookup_file d name"
  by (simp add: prepare_folder_def lookup_file_def split: option.splits)

text \<open>
  C9. With a region available and an empty scene list, the driver ends normally with the
  outcome "no scenes detected, nothing to extract": it writes no file, and the output folder
  exists afterwards, without any file ending in .png and with its other files unchanged.
\<close>

theorem no_scenes_nothing_to_extract:
  "(roi \<noteq> None \<or> picked \<noteq> None) \<longrightarrow>
     (\<exists>fs. main crop score change_threshold roi picked (Inr []) fps video temp_folder =
             (No_scenes_detected, Some fs)
        \<and> fs = prepare_folder temp_folder
        \<and> (\<forall>name. endswith name ''.png'' \<longrightarrow> fs name = None)
        \<and> (\<forall>name. \<not> endswith name ''.png'' \<longrightarrow> fs name = lookup_file temp_folder name))"
  by (auto simp add: main_def prepare_folder_png prepare_folder_other split: option.splits)

theorem no_scenes_nothing_to_extract_witness:
  "fst (main whole_frame abs_diff 0 (Some (0, 10, 0, 10)) None (Inr []) 25 (\<lambda>k. None) old_folder)
     = No_scenes_detected
   \<and> lookup_file (snd (main whole_frame abs_diff 0 (Some (0, 10, 0, 10)) None (Inr []) 25
        (\<lambda>k. None) old_folder)) ''00_00_01_000__00_00_02_000.png'' = None
   \<and> lookup_file (snd (main whole_frame abs_diff 0 (Some (0, 10, 0, 10)) None (Inr []) 25
        (\<lambda>k. None) old_folder)) ''notes.txt'' = Some 3
   \<and> snd (main whole_frame abs_diff 0 (Some (0, 10, 0, 10)) None (Inr []) 25
        (\<lambda>k. None) None) \<noteq> (None :: nat folder)"
  using no_scenes_nothing_to_extract[of "Some (0, 10, 0, 10)" None whole_frame abs_diff 0 25
      "\<lambda>k. None" old_folder]
    no_scenes_nothing_to_extract[of "Some (0, 10, 0, 10)" None whole_frame abs_diff 0 25
      "\<lambda>k. None" "None :: nat folder"]
  by (auto simp add: lookup_file_def old_folder_def endswith_def)

text \<open>
  C4. On a configuration error (no rectangle given or selected, or a video that cannot be
  opened) the driver stops before any scene is processed and writes no file. The output
  folder is created when absent; when it exists, its files ending in .png have been
  deleted by then, and the other files are as before.
\<close>

theorem abort_clears_images:
  "(roi = None \<and> picked = None \<longrightarrow>
      main crop score change_threshold roi picked scenes fps video temp_folder =
        (No_region_selected, Some (prepare_folder temp_folder)))
   \<and> ((roi \<noteq> None \<or> picked \<noteq> None) \<longrightarrow>
      main crop score change_threshold roi picked (Inl e) fps video temp_folder =
        (Raised e, Some (prepare_folder temp_folder)))
   \<and> (endswith name ''.png'' \<longrightarrow> prepare_folder temp_folder name = None)
   \<and> (\<not> endswith name ''.png'' \<longrightarrow> prepare_folder temp_folder name = lookup_file temp_folder name)"
  by (auto simp add: main_def prepare_folder_png prepare_folder_other split: option.splits)

theorem abort_clears_images_witness:
  "main whole_frame abs_diff 0 None None (Inr [(0, 50)]) 25 (\<lambda>k. Some (ramp k)) old_folder =
     (No_region_selected, Some (prepare_folder old_folder))
   \<and> main whole_frame abs_diff 0 (Some (0, 10, 0, 10)) None (Inl VideoOpenFailure) 25
       (\<lambda>k. Some (ramp k)) old_folder = (Raised VideoOpenFailure, Some (prepare_folder old_folder))
   \<and> prepare_folder old_folder ''00_00_01_000__00_00_02_000.png'' = None
   \<and> prepare_folder old_folder ''notes.txt'' = Some 3"
  using abort_clears_images[of None None whole_frame abs_diff 0 "Inr [(0, 50)]" 25
      "\<lambda>k. Some (ramp k)" old_folder VideoOpenFailure "''00_00_01_000__00_00_02_000.png''"]
    abort_clears_images[of "Some (0, 10, 0, 10)" None whole_frame abs_diff 0 "Inr [(0, 50)]" 25
      "\<lambda>k. Some (ramp k)" old_folder VideoOpenFailure "''notes.txt''"]
  by (simp add: endswith_def lookup_file_def old_folder_def)

theorem abort_deletes_old_image:
  "lookup_file old_folder ''00_00_01_000__00_00_02_000.png'' = Some 7
   \<and> fst (main whole_frame abs_diff 0 None None (Inr [(0, 50)]) 25 (\<lambda>k. Some (ramp k)) old_folder)
       = No_region_selected
   \<and> lookup_file (snd (main whole_frame abs_diff 0 None None (Inr [(0, 50)]) 25
        (\<lambda>k. Some (ramp k)) old_folder)) ''00_00_01_000__00_00_02_000.png'' = None"
  by (simp add: main_def prepare_folder_def lookup_file_def old_folder_def endswith_def)

lemma main_scenario_a:
  "fst (main whole_frame abs_diff 0 (Some (0, 10, 0, 10)) None (Inr [(0, 50)]) 25
      (\<lambda>k. Some (ramp k)) old_folder) = Finished 1
   \<and> lookup_file (snd (main whole_frame abs_diff 0 (Some (0, 10, 0, 10)) None (Inr [(0, 50)]) 25
      (\<lambda>k. Some (ramp k)) old_folder)) ''00_00_00_400__00_00_01_160.png'' = Some 29"
  by code_simp

end
